theory Spec2Isabelle
  imports Main
begin

section \<open>Python values used by \<open>fastq_utils.py\<close>\<close>

text \<open>
  The module is Python 2 (\<open>izip\<close>, \<open>xrange\<close>, \<open>cr.next()\<close>): strings are byte strings,
  \<open>/\<close> on two integers is floor division, and integers are unbounded.
  A FASTQ record is the tuple \<open>(name, sequence, quality)\<close>; the quality is \<open>None\<close> for
  the FASTA-shaped records that \<open>readfq\<close> can yield.
\<close>

datatype py_error = IndexError | ZeroDivisionError | TypeError | RuntimeError

type_synonym fq = "string \<times> string \<times> string option"

text \<open>Slice bounds: a negative bound counts from the end, and every bound is clamped.\<close>

definition slice_bound :: "nat \<Rightarrow> int \<Rightarrow> nat" where
  "slice_bound n i = (if i < 0 then nat (max 0 (int n + i)) else min n (nat i))"

text \<open>\<open>xs[a:b]\<close>, \<open>xs[a:]\<close> and \<open>xs[:b]\<close>.\<close>

definition py_slice :: "'a list \<Rightarrow> int \<Rightarrow> int \<Rightarrow> 'a list" where
  "py_slice xs a b =
     (let lo = slice_bound (length xs) a; hi = slice_bound (length xs) b
      in take (hi - lo) (drop lo xs))"

definition py_slice_from :: "'a list \<Rightarrow> int \<Rightarrow> 'a list" where
  "py_slice_from xs a = drop (slice_bound (length xs) a) xs"

definition py_slice_to :: "'a list \<Rightarrow> int \<Rightarrow> 'a list" where
  "py_slice_to xs b = take (slice_bound (length xs) b) xs"

text \<open>\<open>xs[i]\<close> for a non-negative literal index: out of range raises.\<close>

definition py_nth :: "'a list \<Rightarrow> nat \<Rightarrow> py_error + 'a" where
  "py_nth xs i = (if i < length xs then Inr (xs ! i) else Inl IndexError)"

text \<open>\<open>s.count(c)\<close> for a one-character \<open>c\<close>.\<close>

definition py_count :: "string \<Rightarrow> char \<Rightarrow> int" where
  "py_count s c = int (length (filter (\<lambda>x. x = c) s))"

text \<open>\<open>ord\<close> of a byte.\<close>

definition ord :: "char \<Rightarrow> int" where
  "ord c = int (of_char c)"

text \<open>
  \<open>s.split()\<close> without arguments: the maximal runs of non-whitespace bytes, in order.
\<close>

definition is_space :: "char \<Rightarrow> bool" where
  "is_space c = (c \<in> set [CHR '' '', CHR 0x09, CHR 0x0A, CHR 0x0B, CHR 0x0C, CHR 0x0D])"

fun split_go :: "string \<Rightarrow> string \<Rightarrow> string list" where
  "split_go cur [] = (if cur = [] then [] else [cur])"
| "split_go cur (c # cs) =
     (if is_space c then (if cur = [] then split_go [] cs else cur # split_go [] cs)
      else split_go (cur @ [c]) cs)"

definition py_split :: "string \<Rightarrow> string list" where
  "py_split s = split_go [] s"

section \<open>\<open>quality_trim_index\<close>\<close>

text \<open>
  The loop \<open>for i in reversed(xrange(max_i))\<close>: the first argument counts the indices
  still to visit, so the body runs at index \<open>i\<close> when the counter is \<open>Suc i\<close>.
  \<open>break\<close> returns the tracked index at once.
\<close>

fun qti_loop :: "string \<Rightarrow> int \<Rightarrow> int \<Rightarrow> nat \<Rightarrow> int \<Rightarrow> int \<Rightarrow> nat \<Rightarrow> nat" where
  "qti_loop qualities cutoff base 0 s max_qual max_i = max_i"
| "qti_loop qualities cutoff base (Suc i) s max_qual max_i =
     (let q = ord (qualities ! i) - base;
          s' = s + (cutoff - q)
      in if s' < 0 then max_i
         else if s' > max_qual then qti_loop qualities cutoff base i s' s' i
         else qti_loop qualities cutoff base i s' max_qual max_i)"

definition quality_trim_index :: "string \<Rightarrow> int \<Rightarrow> int \<Rightarrow> nat" where
  "quality_trim_index qualities cutoff base =
     qti_loop qualities cutoff base (length qualities) 0 0 (length qualities)"

section \<open>\<open>trim_quality\<close> and \<open>getFake\<close>\<close>

text \<open>
  \<open>record[2][trim_distance:]\<close> raises \<open>TypeError\<close> when the quality is \<open>None\<close>.
  The result \<open>Inr None\<close> is the discard.
\<close>

definition trim_quality :: "fq \<Rightarrow> int \<Rightarrow> int \<Rightarrow> int \<Rightarrow> bool \<Rightarrow> py_error + fq option" where
  "trim_quality record trim_distance min_qual min_length qual64 =
     (case record of (name, seq0, qual0) \<Rightarrow>
      (case qual0 of
         None \<Rightarrow> Inl TypeError
       | Some qual \<Rightarrow>
          (let qscore = py_slice_from qual trim_distance;
               sequence = py_slice_from seq0 trim_distance;
               num_bases_trimmed = int (length sequence);
               phred = (if qual64 then 64 else 33);
               cut_index = int (quality_trim_index qscore min_qual phred);
               nbases = num_bases_trimmed - cut_index
           in if num_bases_trimmed - nbases \<ge> min_length
              then Inr (Some (name,
                              py_slice_to seq0 (num_bases_trimmed - nbases),
                              Some (py_slice_to qual (num_bases_trimmed - nbases))))
              else Inr None)))"

definition getFake :: "string \<Rightarrow> nat \<Rightarrow> fq" where
  "getFake header num_bases =
     (header, replicate num_bases (CHR ''N''), Some (replicate num_bases (CHR ''B'')))"

section \<open>\<open>readfq\<close> and \<open>writefq\<close>\<close>

abbreviation LF :: char where "LF \<equiv> CHR 0x0A"
abbreviation CR :: char where "CR \<equiv> CHR 0x0D"

text \<open>
  The files are opened with mode \<open>"rU"\<close>: \<open>\r\n\<close> and a lone \<open>\r\<close> are read as
  \<open>\n\<close>. Iterating the file yields its lines, each with its line end, the last one
  possibly without; no line is empty.
\<close>

fun universal_newlines :: "string \<Rightarrow> string" where
  "universal_newlines [] = []"
| "universal_newlines [c] = [if c = CR then LF else c]"
| "universal_newlines (c # d # cs) =
     (if c = CR then (if d = LF then LF # universal_newlines cs
                      else LF # universal_newlines (d # cs))
      else c # universal_newlines (d # cs))"

fun lines_go :: "string \<Rightarrow> string \<Rightarrow> string list" where
  "lines_go cur [] = (if cur = [] then [] else [cur])"
| "lines_go cur (c # cs) =
     (if c = LF then (cur @ [c]) # lines_go [] cs else lines_go (cur @ [c]) cs)"

definition file_lines :: "string \<Rightarrow> string list" where
  "file_lines text = lines_go [] (universal_newlines text)"

text \<open>Python truth of the buffer \<open>last\<close> (here \<open>last_line\<close>): \<open>None\<close> and the empty string are false.\<close>

definition truthy :: "string option \<Rightarrow> bool" where
  "truthy last_line = (case last_line of None \<Rightarrow> False | Some s \<Rightarrow> s \<noteq> [])"

text \<open>
  The three inner loops \<open>for l in fp\<close> of \<open>readfq\<close>. Each returns what it has set and
  the lines it has not consumed. \<open>l[0]\<close> raises on an empty line; \<open>l[:-1]\<close> is
  \<open>butlast l\<close>.
\<close>

fun find_header :: "string list \<Rightarrow> py_error + (string option \<times> string list)" where
  "find_header [] = Inr (None, [])"
| "find_header (l # fp) =
     (case l of
        [] \<Rightarrow> Inl IndexError
      | c # _ \<Rightarrow> if c \<in> set ''>@'' then Inr (Some (butlast l), fp) else find_header fp)"

fun read_sequence ::
  "string list \<Rightarrow> string list \<Rightarrow> py_error + (string list \<times> string option \<times> string list)" where
  "read_sequence seqs [] = Inr (seqs, None, [])"
| "read_sequence seqs (l # fp) =
     (case l of
        [] \<Rightarrow> Inl IndexError
      | c # _ \<Rightarrow> if c \<in> set ''@+>'' then Inr (seqs, Some (butlast l), fp)
                else read_sequence (seqs @ [butlast l]) fp)"

text \<open>
  The quality loop returns the joined quality when enough has been read, and \<open>None\<close> when
  the file ends first (\<open>last\<close> is then still the \<open>+\<close> line).
\<close>

fun read_quality :: "nat \<Rightarrow> int \<Rightarrow> string list \<Rightarrow> string list \<Rightarrow> string option \<times> string list" where
  "read_quality n leng seqs [] = (None, [])"
| "read_quality n leng seqs (l # fp) =
     (let seqs' = seqs @ [butlast l];
          leng' = leng + (int (length l) - 1)
      in if leng' \<ge> int n then (Some (concat seqs'), fp)
         else read_quality n leng' seqs' fp)"

text \<open>
  The generator: the records it yields, in order, and how it ends (\<open>None\<close> for a normal
  end, the error for a raise).
\<close>

function readfq_while :: "string option \<Rightarrow> string list \<Rightarrow> fq list \<times> py_error option" where
  "readfq_while last_line fp =
     (case (if truthy last_line then Inr (last_line, fp) else find_header fp) of
        Inl e \<Rightarrow> ([], Some e)
      | Inr (last1, fp1) \<Rightarrow>
         (case last1 of
            None \<Rightarrow> ([], None)
          | Some h \<Rightarrow>
             if h = [] then ([], None)
             else
               (case read_sequence [] fp1 of
                  Inl e \<Rightarrow> ([], Some e)
                | Inr (seqs, last2, fp2) \<Rightarrow>
                   (case last2 of
                      None \<Rightarrow> ([(drop 1 h, concat seqs, None)], None)
                    | Some t \<Rightarrow>
                       if t = [] then ([(drop 1 h, concat seqs, None)], None)
                       else if hd t \<noteq> CHR ''+'' then
                         (case readfq_while (Some t) fp2 of
                            (ys, e) \<Rightarrow> ((drop 1 h, concat seqs, None) # ys, e))
                       else
                         (case read_quality (length (concat seqs)) 0 [] fp2 of
                            (None, fp3) \<Rightarrow> ([(drop 1 h, concat seqs, None)], None)
                          | (Some qual, fp3) \<Rightarrow>
                             (case readfq_while None fp3 of
                                (ys, e) \<Rightarrow> ((drop 1 h, concat seqs, Some qual) # ys, e)))))))"
  by pat_completeness auto

termination readfq_while
proof -
  have fh: "find_header fp = Inr (Some h, fp') \<Longrightarrow> length fp' < length fp" for fp h fp'
    by (induction fp) (auto split: list.splits if_splits)
  have rs: "read_sequence seqs fp = Inr (seqs', Some t, fp') \<Longrightarrow> length fp' < length fp"
    for seqs fp seqs' t fp'
    by (induction fp arbitrary: seqs) (fastforce split: list.splits if_splits)+
  have rq: "read_quality n leng seqs fp = (Some q, fp') \<Longrightarrow> length fp' < length fp"
    for n leng seqs fp q fp'
    by (induction fp arbitrary: leng seqs) (fastforce simp: Let_def split: if_splits)+
  show ?thesis
    apply (relation "measure (\<lambda>(l, fp). length fp)")
      apply simp
     apply (auto split: if_splits dest!: fh rs rq[OF sym])
    done
qed

definition readfq :: "string list \<Rightarrow> fq list \<times> py_error option" where
  "readfq fp = readfq_while None fp"

text \<open>
  \<open>writefq\<close>: each record sent is formatted and written. \<open>str.format\<close> renders a
  \<open>None\<close> quality as the text \<open>None\<close>.
\<close>

definition fq_format :: "fq \<Rightarrow> string" where
  "fq_format record =
     (case record of (header, sequence, quality) \<Rightarrow>
        ''@'' @ header @ [LF] @ sequence @ [LF] @ ''+'' @ [LF] @
        (case quality of None \<Rightarrow> ''None'' | Some q \<Rightarrow> q) @ [LF])"

definition writefq_send :: "string \<Rightarrow> fq \<Rightarrow> string" where
  "writefq_send fp record = fp @ fq_format record"

definition file_text :: "fq list \<Rightarrow> string" where
  "file_text records = foldl writefq_send [] records"

text \<open>
  Modelled from the spec: \<open>fileOk\<close> (\<open>stpipeline.common.utils\<close>) accepts a destination
  that is present and not empty; here the destination is the text written to it.
\<close>

definition fileOk :: "string \<Rightarrow> bool" where
  "fileOk text = (text \<noteq> [])"

section \<open>\<open>filter_rRNA_reads\<close>\<close>

record rrna_state =
  rrna_out_fw :: "fq list"
  rrna_out_rw :: "fq list"
  contaminated_fw :: nat
  contaminated_rv :: nat

text \<open>The body of the loop: the forward record is sent before the reverse header is split.\<close>

definition filter_rRNA_pair :: "rrna_state \<Rightarrow> fq \<Rightarrow> fq \<Rightarrow> py_error + rrna_state" where
  "filter_rRNA_pair st line1 line2 =
     (let header_fw = fst line1; header_rv = fst line2
      in case py_nth (py_split header_fw) 1 of
           Inl e \<Rightarrow> Inl e
         | Inr flag_fw \<Rightarrow>
            (let st1 = (if flag_fw = ''00''
                        then st\<lparr>rrna_out_fw := rrna_out_fw st @ [line1]\<rparr>
                        else st\<lparr>contaminated_fw := contaminated_fw st + 1,
                               rrna_out_fw := rrna_out_fw st @
                                 [getFake header_fw (length (fst (snd line1)))]\<rparr>)
             in case py_nth (py_split header_rv) 1 of
                  Inl e \<Rightarrow> Inl e
                | Inr flag_rv \<Rightarrow>
                   Inr (if flag_rv = ''00''
                        then st1\<lparr>rrna_out_rw := rrna_out_rw st1 @ [line2]\<rparr>
                        else st1\<lparr>contaminated_rv := contaminated_rv st1 + 1,
                                rrna_out_rw := rrna_out_rw st1 @
                                  [getFake header_rv (length (fst (snd line2)))]\<rparr>)))"

text \<open>\<open>izip\<close> ends with the shorter of its two streams.\<close>

definition izip :: "'a list \<Rightarrow> 'b list \<Rightarrow> ('a \<times> 'b) list" where
  "izip xs ys = zip xs ys"

fun filter_rRNA_loop :: "rrna_state \<Rightarrow> (fq \<times> fq) list \<Rightarrow> py_error + rrna_state" where
  "filter_rRNA_loop st [] = Inr st"
| "filter_rRNA_loop st ((line1, line2) # rest) =
     (case filter_rRNA_pair st line1 line2 of
        Inl e \<Rightarrow> Inl e
      | Inr st' \<Rightarrow> filter_rRNA_loop st' rest)"

text \<open>
  The whole pass over the two record streams. The arguments \<open>after_fw\<close> and \<open>after_rv\<close>
  are \<open>qa_stats.reads_after_trimming_forward\<close> and \<open>_reverse\<close>; the integer returned
  is \<open>qa_stats.reads_after_rRNA_trimming\<close>. The message of the output check is
  built with two \<open>%s\<close> and a one-element tuple, which raises \<open>TypeError\<close>.
\<close>

definition filter_rRNA_reads ::
  "int \<Rightarrow> int \<Rightarrow> fq list \<Rightarrow> fq list \<Rightarrow> py_error + (rrna_state \<times> int)" where
  "filter_rRNA_reads after_fw after_rv forward_reads reverse_reads =
     (case filter_rRNA_loop
             \<lparr>rrna_out_fw = [], rrna_out_rw = [], contaminated_fw = 0, contaminated_rv = 0\<rparr>
             (izip forward_reads reverse_reads) of
        Inl e \<Rightarrow> Inl e
      | Inr st \<Rightarrow>
         if \<not> fileOk (file_text (rrna_out_fw st)) \<or> \<not> fileOk (file_text (rrna_out_rw st))
         then Inl TypeError
         else Inr (st, (after_fw + after_rv)
                        - (int (contaminated_fw st) + int (contaminated_rv st))))"

section \<open>\<open>reformatRawReads\<close>\<close>

text \<open>The keyword parameters of \<open>reformatRawReads\<close>.\<close>

record config =
  barcode_start :: int
  barcode_length :: int
  filter_AT_content :: int
  molecular_barcodes :: bool
  mc_start :: int
  mc_end :: int
  trim_fw :: int
  trim_rw :: int
  min_qual :: int
  min_length :: int
  polyA_min_distance :: int
  polyT_min_distance :: int
  polyG_min_distance :: int
  polyC_min_distance :: int
  qual64 :: bool
  keep_discarded_files :: bool

text \<open>The defaults of the signature.\<close>

definition default_config :: config where
  "default_config =
     \<lparr>barcode_start = 0, barcode_length = 18, filter_AT_content = 90,
      molecular_barcodes = False, mc_start = 18, mc_end = 27, trim_fw = 42, trim_rw = 5,
      min_qual = 20, min_length = 28, polyA_min_distance = 0, polyT_min_distance = 0,
      polyG_min_distance = 0, polyC_min_distance = 0, qual64 = False,
      keep_discarded_files = False\<rparr>"

record reformat_state =
  out_fw :: "fq list"
  out_rw :: "fq list"
  out_fw_discarded :: "fq list"
  out_rw_discarded :: "fq list"
  total_reads :: nat
  dropped_fw :: nat
  dropped_rw :: nat

text \<open>
  \<open>"".join(c for k in xrange(n))\<close>: an \<open>xrange\<close> of a negative number is empty.
  The fourth adaptor is built from \<open>polyG_min_distance\<close>, as in the source.
\<close>

definition adaptorA :: "config \<Rightarrow> string" where
  "adaptorA cfg = replicate (nat (polyA_min_distance cfg)) (CHR ''A'')"

definition adaptorT :: "config \<Rightarrow> string" where
  "adaptorT cfg = replicate (nat (polyT_min_distance cfg)) (CHR ''T'')"

definition adaptorG :: "config \<Rightarrow> string" where
  "adaptorG cfg = replicate (nat (polyG_min_distance cfg)) (CHR ''G'')"

definition adaptorC :: "config \<Rightarrow> string" where
  "adaptorC cfg = replicate (nat (polyG_min_distance cfg)) (CHR ''C'')"

definition iscorrect_mc :: "config \<Rightarrow> bool" where
  "iscorrect_mc cfg =
     (if mc_start cfg < barcode_start cfg + barcode_length cfg
         \<or> mc_end cfg < barcode_start cfg + barcode_length cfg
      then False else molecular_barcodes cfg)"

text \<open>
  The fragment taken from the forward read: \<open>x[barcode_start:barcode_length]\<close>, then
  \<open>x[mc_start:mc_end]\<close> when the molecular barcodes are in use.
\<close>

definition to_append :: "config \<Rightarrow> string \<Rightarrow> string" where
  "to_append cfg x =
     py_slice x (barcode_start cfg) (barcode_length cfg) @
     (if iscorrect_mc cfg then py_slice x (mc_start cfg) (mc_end cfg) else [])"

text \<open>
  \<open>((sequence.count("A") + sequence.count("T")) / num_bases) * 100\<close>: the division is
  the floor division of two integers and raises on an empty sequence.
\<close>

definition at_content :: "string \<Rightarrow> py_error + int" where
  "at_content sequence =
     (let num_bases = int (length sequence)
      in if num_bases = 0 then Inl ZeroDivisionError
         else Inr (((py_count sequence (CHR ''A'') + py_count sequence (CHR ''T''))
                     div num_bases) * 100))"

text \<open>
  The condition that sets a line to \<open>None\<close> before trimming; \<open>or\<close> evaluates its
  right operand only when the left one is false.
\<close>

definition pretrim_discard :: "string \<Rightarrow> int \<Rightarrow> int \<Rightarrow> int \<Rightarrow> py_error + bool" where
  "pretrim_discard sequence trim min_len filter_AT =
     (if int (length sequence) - trim < min_len then Inr True
      else case at_content sequence of
             Inl e \<Rightarrow> Inl e
           | Inr percent \<Rightarrow> Inr (percent \<ge> filter_AT))"

text \<open>
  \<open>removeAdaptor\<close> (\<open>stpipeline.common.adaptors\<close>) is a parameter: it receives the line
  (possibly \<open>None\<close>), the adaptor, the trim offset and the end marker.
\<close>

type_synonym adaptor_trimmer = "fq option \<Rightarrow> string \<Rightarrow> int \<Rightarrow> string \<Rightarrow> fq option"

definition adaptor_pass ::
  "adaptor_trimmer \<Rightarrow> config \<Rightarrow> int \<Rightarrow> string \<Rightarrow> fq option \<times> fq option
     \<Rightarrow> fq option \<times> fq option" where
  "adaptor_pass removeAdaptor cfg min_distance adaptor lines =
     (if min_distance > 0
      then (removeAdaptor (fst lines) adaptor (trim_fw cfg) ''5'',
            removeAdaptor (snd lines) adaptor (trim_rw cfg) ''5'')
      else lines)"

definition remove_adaptors ::
  "adaptor_trimmer \<Rightarrow> config \<Rightarrow> fq option \<times> fq option \<Rightarrow> fq option \<times> fq option" where
  "remove_adaptors removeAdaptor cfg lines =
     adaptor_pass removeAdaptor cfg (polyC_min_distance cfg) (adaptorC cfg)
       (adaptor_pass removeAdaptor cfg (polyG_min_distance cfg) (adaptorG cfg)
         (adaptor_pass removeAdaptor cfg (polyT_min_distance cfg) (adaptorT cfg)
           (adaptor_pass removeAdaptor cfg (polyA_min_distance cfg) (adaptorA cfg) lines)))"

definition trim_line :: "config \<Rightarrow> int \<Rightarrow> fq option \<Rightarrow> py_error + fq option" where
  "trim_line cfg trim line =
     (case line of
        None \<Rightarrow> Inr None
      | Some r \<Rightarrow> trim_quality r trim (min_qual cfg) (min_length cfg) (qual64 cfg))"

text \<open>The two emissions at the end of the loop body.\<close>

definition emit_fw :: "config \<Rightarrow> fq \<Rightarrow> fq option \<Rightarrow> reformat_state \<Rightarrow> reformat_state" where
  "emit_fw cfg line line1_trimmed st =
     (case line1_trimmed of
        Some t \<Rightarrow> st\<lparr>out_fw := out_fw st @ [t]\<rparr>
      | None \<Rightarrow>
         (let st1 = st\<lparr>out_fw := out_fw st @ [getFake (fst line) (length (fst (snd line)))],
                        dropped_fw := dropped_fw st + 1\<rparr>
          in if keep_discarded_files cfg
             then st1\<lparr>out_fw_discarded := out_fw_discarded st1 @ [line]\<rparr>
             else st1))"

definition emit_rw ::
  "config \<Rightarrow> string \<Rightarrow> string \<Rightarrow> fq \<Rightarrow> fq option \<Rightarrow> reformat_state
     \<Rightarrow> py_error + reformat_state" where
  "emit_rw cfg to_append_sequence to_append_sequence_quality line line2_trimmed st =
     (case line2_trimmed of
        Some t \<Rightarrow>
         (case snd (snd t) of
            None \<Rightarrow> Inl TypeError
          | Some q \<Rightarrow>
             Inr (st\<lparr>out_rw := out_rw st @
                    [(fst t, to_append_sequence @ fst (snd t),
                      Some (to_append_sequence_quality @ q))]\<rparr>))
      | None \<Rightarrow>
         (let st1 = st\<lparr>out_rw := out_rw st @ [getFake (fst line) (length (fst (snd line)))],
                        dropped_rw := dropped_rw st + 1\<rparr>
          in Inr (if keep_discarded_files cfg
                  then st1\<lparr>out_rw_discarded := out_rw_discarded st1 @ [line]\<rparr>
                  else st1)))"

text \<open>
  The loop body after the \<open>None\<close> test, for the pair \<open>(line1, line2)\<close>. Slicing the
  forward quality raises \<open>TypeError\<close> when it is \<open>None\<close>.
\<close>

definition reformat_pair ::
  "adaptor_trimmer \<Rightarrow> config \<Rightarrow> reformat_state \<Rightarrow> fq \<Rightarrow> fq \<Rightarrow> py_error + reformat_state" where
  "reformat_pair removeAdaptor cfg st line1 line2 =
     (case line1 of (header_fw, sequence_fw, quality_fw) \<Rightarrow>
      case line2 of (header_rv, sequence_rv, quality_rv) \<Rightarrow>
      case py_nth (py_split header_fw) 0 of Inl e \<Rightarrow> Inl e | Inr name_fw \<Rightarrow>
      case py_nth (py_split header_rv) 0 of Inl e \<Rightarrow> Inl e | Inr name_rv \<Rightarrow>
      let st1 = st\<lparr>total_reads := total_reads st + 1\<rparr>;
          to_append_sequence = to_append cfg sequence_fw
      in
      case quality_fw of None \<Rightarrow> Inl TypeError | Some qual_fw \<Rightarrow>
      let to_append_sequence_quality = to_append cfg qual_fw in
      case pretrim_discard sequence_fw (trim_fw cfg) (min_length cfg) (filter_AT_content cfg) of
        Inl e \<Rightarrow> Inl e | Inr discard_fw \<Rightarrow>
      case pretrim_discard sequence_rv (trim_rw cfg) (min_length cfg) (filter_AT_content cfg) of
        Inl e \<Rightarrow> Inl e | Inr discard_rv \<Rightarrow>
      let lines = remove_adaptors removeAdaptor cfg
                    (if discard_fw then None else Some line1,
                     if discard_rv then None else Some line2)
      in
      case trim_line cfg (trim_rw cfg) (snd lines) of Inl e \<Rightarrow> Inl e | Inr line2_trimmed \<Rightarrow>
      case trim_line cfg (trim_fw cfg) (fst lines) of Inl e \<Rightarrow> Inl e | Inr line1_trimmed \<Rightarrow>
      emit_rw cfg to_append_sequence to_append_sequence_quality line2 line2_trimmed
        (emit_fw cfg line1 line1_trimmed st1))"

text \<open>
  The loop over \<open>izip(readfq(fw_file), readfq(rw_file))\<close>. The test
  \<open>line1 is None or line2 is None\<close> logs an error and leaves the loop.
\<close>

fun reformat_loop ::
  "adaptor_trimmer \<Rightarrow> config \<Rightarrow> reformat_state \<Rightarrow> (fq option \<times> fq option) list
     \<Rightarrow> py_error + reformat_state" where
  "reformat_loop removeAdaptor cfg st [] = Inr st"
| "reformat_loop removeAdaptor cfg st ((Some line1, Some line2) # rest) =
     (case reformat_pair removeAdaptor cfg st line1 line2 of
        Inl e \<Rightarrow> Inl e
      | Inr st' \<Rightarrow> reformat_loop removeAdaptor cfg st' rest)"
| "reformat_loop removeAdaptor cfg st (_ # rest) = Inr st"

text \<open>
  The whole run on the two record streams \<open>fw\<close> and \<open>rw\<close> (what \<open>readfq\<close> yields for
  the two files): the items that \<open>izip\<close> gives are pairs of records, never \<open>None\<close>.
  After the loop the two kept outputs are checked, and the statistics divide by
  \<open>float(total_reads)\<close>.
\<close>

definition init_state :: reformat_state where
  "init_state =
     \<lparr>out_fw = [], out_rw = [], out_fw_discarded = [], out_rw_discarded = [],
      total_reads = 0, dropped_fw = 0, dropped_rw = 0\<rparr>"

definition reformatRawReads ::
  "adaptor_trimmer \<Rightarrow> config \<Rightarrow> fq list \<Rightarrow> fq list \<Rightarrow> py_error + reformat_state" where
  "reformatRawReads removeAdaptor cfg fw rw =
     (case reformat_loop removeAdaptor cfg init_state
             (map (\<lambda>(line1, line2). (Some line1, Some line2)) (izip fw rw)) of
        Inl e \<Rightarrow> Inl e
      | Inr st \<Rightarrow>
         if \<not> fileOk (file_text (out_fw st)) \<or> \<not> fileOk (file_text (out_rw st))
         then Inl RuntimeError
         else if total_reads st = 0 then Inl ZeroDivisionError
         else Inr st)"

section \<open>Notions used to state the properties\<close>

text \<open>
  The running sum of \<open>quality_trim_index\<close> after the body has run at index \<open>i\<close>: the
  sum of \<open>cutoff - (ord c - base)\<close> over the qualities from \<open>i\<close> to the end.
\<close>

definition suffix_sum :: "string \<Rightarrow> int \<Rightarrow> int \<Rightarrow> nat \<Rightarrow> int" where
  "suffix_sum qualities cutoff base i =
     sum_list (map (\<lambda>c. cutoff - (ord c - base)) (drop i qualities))"

text \<open>
  The indices whose running sum the scan gets to compare: the scan has not stopped at
  \<open>i\<close> or before it, that is, no running sum from \<open>i\<close> to the end is negative.
\<close>

definition scanned :: "string \<Rightarrow> int \<Rightarrow> int \<Rightarrow> nat \<Rightarrow> bool" where
  "scanned qualities cutoff base i =
     (i < length qualities \<and>
      list_all (\<lambda>j. 0 \<le> suffix_sum qualities cutoff base j) [i..<length qualities])"

text \<open>The invariant of the loop when \<open>k\<close> indices are still to visit.\<close>

definition qti_inv :: "string \<Rightarrow> int \<Rightarrow> int \<Rightarrow> nat \<Rightarrow> int \<Rightarrow> int \<Rightarrow> nat \<Rightarrow> bool" where
  "qti_inv q c b k s mq mi \<longleftrightarrow>
     k \<le> length q \<and> s = suffix_sum q c b k \<and>
     (\<forall>j. k \<le> j \<and> j < length q \<longrightarrow> 0 \<le> suffix_sum q c b j \<and> suffix_sum q c b j \<le> mq) \<and>
     mi \<le> length q \<and>
     (mi = length q \<longrightarrow> mq = 0) \<and>
     (mi < length q \<longrightarrow> k \<le> mi \<and> suffix_sum q c b mi = mq \<and> 0 < mq \<and>
        (\<forall>j. k \<le> j \<and> j < length q \<and> suffix_sum q c b j = mq \<longrightarrow> j \<le> mi))"

definition qti_post :: "string \<Rightarrow> int \<Rightarrow> int \<Rightarrow> nat \<Rightarrow> bool" where
  "qti_post q c b r \<longleftrightarrow>
     r \<le> length q \<and>
     (r = length q \<longrightarrow> (\<forall>i. scanned q c b i \<longrightarrow> suffix_sum q c b i \<le> 0)) \<and>
     (r < length q \<longrightarrow> scanned q c b r \<and> 0 < suffix_sum q c b r \<and>
        (\<forall>i. scanned q c b i \<longrightarrow> suffix_sum q c b i \<le> suffix_sum q c b r \<and>
              (suffix_sum q c b i = suffix_sum q c b r \<longrightarrow> i \<le> r)))"

text \<open>
  Records on which the loop body of \<open>reformatRawReads\<close> raises nothing: the header has a
  first token, the sequence is not empty and the quality is present.
\<close>

definition wellformed :: "fq \<Rightarrow> bool" where
  "wellformed r = (py_split (fst r) \<noteq> [] \<and> fst (snd r) \<noteq> [] \<and> snd (snd r) \<noteq> None)"

definition adaptors_off :: "config \<Rightarrow> bool" where
  "adaptors_off cfg =
     (polyA_min_distance cfg \<le> 0 \<and> polyT_min_distance cfg \<le> 0 \<and>
      polyG_min_distance cfg \<le> 0 \<and> polyC_min_distance cfg \<le> 0)"

text \<open>
  For the contamination pass: the flag of a record is the second token of its header
  (\<open>header.split()[1]\<close>), which exists when the header has two tokens. A record with
  the flag \<open>00\<close> is to be kept as it is; any other record is to be replaced by the
  placeholder with its header and \<open>N\<close> and \<open>B\<close> repeated to the length of its
  sequence, and counts as contaminated.
\<close>

definition has_flag :: "fq \<Rightarrow> bool" where
  "has_flag r = (1 < length (py_split (fst r)))"

definition flag_token :: "fq \<Rightarrow> string" where
  "flag_token r = py_split (fst r) ! 1"

definition kept_record :: "fq \<Rightarrow> fq" where
  "kept_record r =
     (if flag_token r = ''00'' then r
      else (fst r, replicate (length (fst (snd r))) (CHR ''N''),
            Some (replicate (length (fst (snd r))) (CHR ''B''))))"

definition count_contaminated :: "fq list \<Rightarrow> nat" where
  "count_contaminated rs = length (filter (\<lambda>r. flag_token r \<noteq> ''00'') rs)"

section \<open>The cut index of \<open>quality_trim_index\<close>\<close>

lemma suffix_sum_step:
  "i < length q \<Longrightarrow> suffix_sum q c b i = (c - (ord (q ! i) - b)) + suffix_sum q c b (Suc i)"
  by (simp add: suffix_sum_def flip: Cons_nth_drop_Suc)

lemma suffix_sum_end: "suffix_sum q c b (length q) = 0"
  by (simp add: suffix_sum_def)

lemma scanned_iff:
  "scanned q c b i \<longleftrightarrow>
     i < length q \<and> (\<forall>j. i \<le> j \<and> j < length q \<longrightarrow> 0 \<le> suffix_sum q c b j)"
  by (auto simp: scanned_def list_all_iff)

lemma qti_loop_post:
  "qti_inv q c b k s mq mi \<Longrightarrow> qti_post q c b (qti_loop q c b k s mq mi)"
proof (induction k arbitrary: s mq mi)
  case 0
  then show ?case
    unfolding qti_inv_def qti_post_def scanned_iff by (simp) (metis)
next
  case (Suc i)
  let ?s' = "s + (c - (ord (q ! i) - b))"
  from Suc.prems have il: "i < length q" by (simp add: qti_inv_def)
  from Suc.prems have s': "?s' = suffix_sum q c b i"
    using suffix_sum_step[OF il] by (simp add: qti_inv_def)
  have prev: "0 \<le> suffix_sum q c b j \<and> suffix_sum q c b j \<le> mq"
    if "Suc i \<le> j" "j < length q" for j
    using Suc.prems that by (simp add: qti_inv_def)
  have step: "j = i \<or> Suc i \<le> j" if "i \<le> j" for j
    using that by auto
  show ?case
  proof (cases "?s' < 0")
    case True
    have sc: "scanned q c b j \<longleftrightarrow> Suc i \<le> j \<and> j < length q" for j
      using Suc.prems True s' unfolding scanned_iff qti_inv_def
      by (metis not_less_eq_eq not_less le_trans)
    show ?thesis
      using Suc.prems True unfolding qti_post_def sc qti_inv_def
      by (simp add: Let_def) (metis)
  next
    case False
    show ?thesis
    proof (cases "?s' > mq")
      case True
      have "qti_inv q c b i ?s' ?s' i"
        unfolding qti_inv_def
      proof (intro conjI allI impI)
        fix j assume j: "i \<le> j \<and> j < length q"
        show "0 \<le> suffix_sum q c b j"
          using step[of j] prev[of j] j False s' by auto
        show "suffix_sum q c b j \<le> ?s'"
          using step[of j] prev[of j] j True s' by auto
      next
        fix j assume j: "i \<le> j \<and> j < length q \<and> suffix_sum q c b j = ?s'"
        show "j \<le> i"
        proof (rule ccontr)
          assume "\<not> j \<le> i"
          then have "Suc i \<le> j" by simp
          with j prev[of j] have "suffix_sum q c b j \<le> mq" by simp
          with j True show False by simp
        qed
      qed (use il s' False True Suc.prems in \<open>auto simp: qti_inv_def\<close>)
      from Suc.IH[OF this] True False show ?thesis by (simp add: Let_def)
    next
      case nogt: False
      have "qti_inv q c b i ?s' mq mi"
        unfolding qti_inv_def
      proof (intro conjI allI impI)
        fix j assume j: "i \<le> j \<and> j < length q"
        show "0 \<le> suffix_sum q c b j"
          using step[of j] prev[of j] j False s' by auto
        show "suffix_sum q c b j \<le> mq"
          using step[of j] prev[of j] j nogt s' by auto
      next
        fix j assume mi: "mi < length q"
          and j: "i \<le> j \<and> j < length q \<and> suffix_sum q c b j = mq"
        have tie: "Suc i \<le> j \<Longrightarrow> j \<le> mi" and lo: "Suc i \<le> mi"
          using j mi Suc.prems unfolding qti_inv_def by auto
        show "j \<le> mi"
          using step[of j] j tie lo by auto
      next
        assume mi: "mi < length q"
        show "i \<le> mi" using mi Suc.prems unfolding qti_inv_def by auto
      qed (use il s' False nogt Suc.prems in \<open>auto simp: qti_inv_def\<close>)
      from Suc.IH[OF this] nogt False show ?thesis by (simp add: Let_def)
    qed
  qed
qed

lemma qti_inv_init: "qti_inv q c b (length q) 0 0 (length q)"
  by (simp add: qti_inv_def suffix_sum_end)

text \<open>
  Claim C4, as the code has it. The scan goes from the last index down, adds
  \<open>cutoff - phred\<close> to the running sum and stops as soon as the sum is negative. The
  index returned is the length of the string when no running sum compared was positive;
  otherwise it is an index compared, its running sum is positive and is the LARGEST of
  the running sums compared (the code tracks the maximum, not the minimum), and among the
  indices with that same sum it is the greatest one, which is the first that the scan
  reached and leaves the longest read.
\<close>

theorem quality_trim_index_tracks_maximum:
  "quality_trim_index q c b \<le> length q \<and>
   (quality_trim_index q c b = length q \<longrightarrow>
      (\<forall>i. scanned q c b i \<longrightarrow> suffix_sum q c b i \<le> 0)) \<and>
   (quality_trim_index q c b < length q \<longrightarrow>
      scanned q c b (quality_trim_index q c b) \<and>
      0 < suffix_sum q c b (quality_trim_index q c b) \<and>
      (\<forall>i. scanned q c b i \<longrightarrow>
         suffix_sum q c b i \<le> suffix_sum q c b (quality_trim_index q c b) \<and>
         (suffix_sum q c b i = suffix_sum q c b (quality_trim_index q c b) \<longrightarrow>
            i \<le> quality_trim_index q c b)))"
  using qti_loop_post[OF qti_inv_init, of q c b]
  unfolding quality_trim_index_def qti_post_def .

text \<open>
  The theorem at the qualities \<open>I5+\<close> (phred 40, 20, 10) with cutoff 20: the indices 2
  and 1 are both compared with the running sum 10, and the index returned is 2.
\<close>

theorem quality_trim_index_tracks_maximum_witness:
  "quality_trim_index ''I5+'' 20 33 < length ''I5+'' \<and>
   scanned ''I5+'' 20 33 1 \<and>
   suffix_sum ''I5+'' 20 33 1 = suffix_sum ''I5+'' 20 33 (quality_trim_index ''I5+'' 20 33) \<and>
   1 \<le> quality_trim_index ''I5+'' 20 33"
proof -
  have r: "quality_trim_index ''I5+'' 20 33 = 2" by code_simp
  have sc: "scanned ''I5+'' 20 33 1" by code_simp
  have tie: "suffix_sum ''I5+'' 20 33 1 = suffix_sum ''I5+'' 20 33 2" by code_simp
  from quality_trim_index_tracks_maximum[of "''I5+''" 20 33] r sc tie
  show ?thesis by simp
qed

text \<open>
  Claim C4 as worded (the index of the minimal running sum) fails: at the qualities
  \<open>?!\<close> (phred 30, 0) with cutoff 20 the scan compares index 1 with the sum 20 and
  index 0 with the sum 10, and the index returned is 1, whose sum is not the smaller one.
\<close>

theorem quality_trim_index_not_minimum:
  "quality_trim_index ''?!'' 20 33 = 1 \<and>
   scanned ''?!'' 20 33 0 \<and>
   suffix_sum ''?!'' 20 33 0 < suffix_sum ''?!'' 20 33 1"
  by code_simp

section \<open>Pairing of the two kept outputs\<close>

lemma emit_fw_counts:
  "length (out_fw (emit_fw cfg line t st)) = Suc (length (out_fw st)) \<and>
   length (out_rw (emit_fw cfg line t st)) = length (out_rw st) \<and>
   total_reads (emit_fw cfg line t st) = total_reads st"
  by (simp add: emit_fw_def Let_def split: option.splits)

lemma emit_rw_counts:
  "emit_rw cfg a b line t st = Inr st' \<Longrightarrow>
   length (out_rw st') = Suc (length (out_rw st)) \<and>
   length (out_fw st') = length (out_fw st) \<and>
   total_reads st' = total_reads st"
  by (auto simp: emit_rw_def Let_def split: option.splits)

lemma reformat_pair_counts:
  assumes "reformat_pair ra cfg st line1 line2 = Inr st'"
  shows "length (out_fw st') = Suc (length (out_fw st)) \<and>
         length (out_rw st') = Suc (length (out_rw st)) \<and>
         total_reads st' = Suc (total_reads st)"
proof -
  from assms obtain t1 a b st1 t2
    where e: "emit_rw cfg a b line2 t2 (emit_fw cfg line1 t1 st1) = Inr st'"
      and s1: "st1 = st\<lparr>total_reads := total_reads st + 1\<rparr>"
    unfolding reformat_pair_def Let_def
    by (auto split: prod.splits sum.splits option.splits)
  from emit_rw_counts[OF e] emit_fw_counts[of cfg line1 t1 st1] s1
  show ?thesis by simp
qed

lemma reformat_loop_counts:
  assumes "reformat_loop ra cfg st (map (\<lambda>(line1, line2). (Some line1, Some line2)) ps) = Inr st'"
  shows "length (out_fw st') = length (out_fw st) + length ps \<and>
         length (out_rw st') = length (out_rw st) + length ps \<and>
         total_reads st' = total_reads st + length ps"
  using assms
proof (induction ps arbitrary: st)
  case Nil
  then show ?case by simp
next
  case (Cons p ps)
  obtain line1 line2 where p: "p = (line1, line2)" by (cases p)
  from Cons.prems p obtain st1 where
    one: "reformat_pair ra cfg st line1 line2 = Inr st1" and
    rest: "reformat_loop ra cfg st1 (map (\<lambda>(line1, line2). (Some line1, Some line2)) ps) = Inr st'"
    by (auto split: sum.splits)
  from Cons.IH[OF rest] reformat_pair_counts[OF one]
  show ?case by simp
qed


lemma pretrim_discard_returns:
  "sequence \<noteq> [] \<Longrightarrow> \<exists>d. pretrim_discard sequence trim m f = Inr d"
  by (auto simp: pretrim_discard_def at_content_def)

lemma remove_adaptors_off:
  "adaptors_off cfg \<Longrightarrow> remove_adaptors ra cfg lines = lines"
  by (simp add: adaptors_off_def remove_adaptors_def adaptor_pass_def)

lemma trim_quality_returns:
  "trim_quality (n, s, Some q) trim mq ml q64 = Inr None \<or>
   (\<exists>s' q'. trim_quality (n, s, Some q) trim mq ml q64 = Inr (Some (n, s', Some q')))"
  by (simp add: trim_quality_def Let_def)

lemma trim_line_returns:
  assumes "\<forall>r. line = Some r \<longrightarrow> snd (snd r) \<noteq> None"
  shows "trim_line cfg trim line = Inr None \<or>
         (\<exists>n s q. trim_line cfg trim line = Inr (Some (n, s, Some q)))"
proof (cases line)
  case None
  then show ?thesis by (simp add: trim_line_def)
next
  case (Some r)
  with assms obtain n s q where "r = (n, s, Some q)" by (cases r) auto
  with Some trim_quality_returns[of n s q trim "min_qual cfg" "min_length cfg" "qual64 cfg"]
  show ?thesis by (auto simp: trim_line_def)
qed

lemma emit_rw_returns:
  "t = None \<or> (\<exists>n s q. t = Some (n, s, Some q)) \<Longrightarrow> \<exists>st'. emit_rw cfg a b line t st = Inr st'"
  by (auto simp: emit_rw_def Let_def)

lemma reformat_pair_returns_tuples:
  assumes t1: "py_split h1 \<noteq> []" and n1: "s1 \<noteq> []"
    and t2: "py_split h2 \<noteq> []" and n2: "s2 \<noteq> []"
    and off: "adaptors_off cfg"
  shows "\<exists>st'. reformat_pair ra cfg st (h1, s1, Some q1) (h2, s2, Some q2) = Inr st'"
proof -
  obtain d1 where d1: "pretrim_discard s1 (trim_fw cfg) (min_length cfg) (filter_AT_content cfg) = Inr d1"
    using pretrim_discard_returns[OF n1] by blast
  obtain d2 where d2: "pretrim_discard s2 (trim_rw cfg) (min_length cfg) (filter_AT_content cfg) = Inr d2"
    using pretrim_discard_returns[OF n2] by blast
  let ?la = "if d1 then None else Some (h1, s1, Some q1)"
  let ?lb = "if d2 then None else Some (h2, s2, Some q2)"
  have ra: "remove_adaptors ra cfg (?la, ?lb) = (?la, ?lb)"
    by (rule remove_adaptors_off[OF off])
  have qb: "\<forall>r. ?lb = Some r \<longrightarrow> snd (snd r) \<noteq> None" by auto
  have qa: "\<forall>r. ?la = Some r \<longrightarrow> snd (snd r) \<noteq> None" by auto
  from trim_line_returns[OF qb, of cfg "trim_rw cfg"]
  obtain tb where tb: "trim_line cfg (trim_rw cfg) ?lb = Inr tb"
    and tb': "tb = None \<or> (\<exists>n s q. tb = Some (n, s, Some q))"
    by blast
  from trim_line_returns[OF qa, of cfg "trim_fw cfg"]
  obtain ta where ta: "trim_line cfg (trim_fw cfg) ?la = Inr ta"
    by blast
  have p1: "py_nth (py_split h1) 0 = Inr (py_split h1 ! 0)" using t1 by (simp add: py_nth_def)
  have p2: "py_nth (py_split h2) 0 = Inr (py_split h2 ! 0)" using t2 by (simp add: py_nth_def)
  show ?thesis
    using emit_rw_returns[OF tb']
    by (simp add: reformat_pair_def Let_def p1 p2 d1 d2 ra ta tb)
qed

lemma reformat_pair_returns:
  assumes "wellformed line1" "wellformed line2" "adaptors_off cfg"
  shows "\<exists>st'. reformat_pair ra cfg st line1 line2 = Inr st'"
proof -
  obtain h1 s1 q1 where l1: "line1 = (h1, s1, Some q1)" and t1: "py_split h1 \<noteq> []" and n1: "s1 \<noteq> []"
    using assms(1) by (cases line1) (auto simp: wellformed_def)
  obtain h2 s2 q2 where l2: "line2 = (h2, s2, Some q2)" and t2: "py_split h2 \<noteq> []" and n2: "s2 \<noteq> []"
    using assms(2) by (cases line2) (auto simp: wellformed_def)
  show ?thesis
    unfolding l1 l2 by (rule reformat_pair_returns_tuples[OF t1 n1 t2 n2 assms(3)])
qed

lemma reformat_loop_returns:
  assumes "\<forall>p \<in> set ps. wellformed (fst p) \<and> wellformed (snd p)" "adaptors_off cfg"
  shows "\<exists>st'. reformat_loop ra cfg st (map (\<lambda>(line1, line2). (Some line1, Some line2)) ps) = Inr st'"
  using assms(1)
proof (induction ps arbitrary: st)
  case Nil
  then show ?case by simp
next
  case (Cons p ps)
  obtain line1 line2 where p: "p = (line1, line2)" by (cases p)
  with Cons.prems have "wellformed line1" "wellformed line2" by auto
  from reformat_pair_returns[OF this assms(2)] obtain st1
    where "reformat_pair ra cfg st line1 line2 = Inr st1" by blast
  moreover from Cons.IH[of st1] Cons.prems obtain st'
    where "reformat_loop ra cfg st1 (map (\<lambda>(line1, line2). (Some line1, Some line2)) ps) = Inr st'"
    by auto
  ultimately show ?case using p by simp
qed

lemma file_text_snoc: "file_text (rs @ [r]) = file_text rs @ fq_format r"
  by (simp add: file_text_def writefq_send_def)

lemma fileOk_file_text: "rs \<noteq> [] \<Longrightarrow> fileOk (file_text rs)"
  by (cases rs rule: rev_cases) (auto simp: file_text_snoc fileOk_def fq_format_def split: prod.splits)

text \<open>
  Claim C1. For two input streams of equal length, a run of \<open>reformatRawReads\<close> that
  returns has written as many records to the kept forward output as to the kept reverse
  output, and as many as there are input pairs, which is also the count \<open>total_reads\<close>;
  records that are discarded are counted too, since a placeholder is written for each.
  The run does return when the streams are not empty, every record has a header token,
  a sequence that is not empty and a quality, and no adaptor is to be removed.
\<close>

theorem reformatRawReads_pairing:
  assumes "length fw = length rw"
  shows "(\<forall>st. reformatRawReads ra cfg fw rw = Inr st \<longrightarrow>
            length (out_fw st) = length fw \<and> length (out_rw st) = length fw \<and>
            total_reads st = length fw) \<and>
         (fw \<noteq> [] \<and> (\<forall>r \<in> set fw \<union> set rw. wellformed r) \<and> adaptors_off cfg \<longrightarrow>
            (\<exists>st. reformatRawReads ra cfg fw rw = Inr st))"
proof (intro conjI allI impI)
  fix st assume "reformatRawReads ra cfg fw rw = Inr st"
  then have
    "reformat_loop ra cfg init_state
       (map (\<lambda>(line1, line2). (Some line1, Some line2)) (izip fw rw)) = Inr st"
    unfolding reformatRawReads_def by (auto split: sum.splits if_splits)
  from reformat_loop_counts[OF this] assms
  show "length (out_fw st) = length fw" "length (out_rw st) = length fw"
    "total_reads st = length fw"
    by (simp_all add: init_state_def izip_def)
next
  assume wf: "fw \<noteq> [] \<and> (\<forall>r \<in> set fw \<union> set rw. wellformed r) \<and> adaptors_off cfg"
  then have "\<forall>p \<in> set (izip fw rw). wellformed (fst p) \<and> wellformed (snd p)"
    by (auto simp: izip_def dest: set_zip_leftD set_zip_rightD)
  from reformat_loop_returns[OF this, of cfg ra init_state] wf obtain st where
    st: "reformat_loop ra cfg init_state
       (map (\<lambda>(line1, line2). (Some line1, Some line2)) (izip fw rw)) = Inr st" by blast
  from reformat_loop_counts[OF st] assms wf
  have "out_fw st \<noteq> []" "out_rw st \<noteq> []" "total_reads st \<noteq> 0"
    by (auto simp: init_state_def izip_def)
  with st show "\<exists>st. reformatRawReads ra cfg fw rw = Inr st"
    by (simp add: reformatRawReads_def fileOk_file_text)
qed

text \<open>
  The theorem at two pairs of four-base reads under the default parameters: every record
  is discarded on both sides, and each kept output holds two placeholders.
\<close>

theorem reformatRawReads_pairing_witness:
  "length [(''r1 1'', ''ACGT'', Some ''IIII''), (''r2 1'', ''ACGG'', Some ''IIII'')]
     = length [(''r1 2'', ''GGCC'', Some ''IIII''), (''r2 2'', ''TTTT'', Some ''IIII'')] \<and>
   list_all wellformed
     ([(''r1 1'', ''ACGT'', Some ''IIII''), (''r2 1'', ''ACGG'', Some ''IIII'')] @
      [(''r1 2'', ''GGCC'', Some ''IIII''), (''r2 2'', ''TTTT'', Some ''IIII'')]) \<and>
   adaptors_off default_config \<and>
   reformatRawReads (\<lambda>line adaptor trim e. line) default_config
     [(''r1 1'', ''ACGT'', Some ''IIII''), (''r2 1'', ''ACGG'', Some ''IIII'')]
     [(''r1 2'', ''GGCC'', Some ''IIII''), (''r2 2'', ''TTTT'', Some ''IIII'')]
   = Inr \<lparr>out_fw = [(''r1 1'', ''NNNN'', Some ''BBBB''), (''r2 1'', ''NNNN'', Some ''BBBB'')],
          out_rw = [(''r1 2'', ''NNNN'', Some ''BBBB''), (''r2 2'', ''NNNN'', Some ''BBBB'')],
          out_fw_discarded = [], out_rw_discarded = [], total_reads = 2,
          dropped_fw = 2, dropped_rw = 2\<rparr>"
proof -
  let ?fw = "[(''r1 1'', ''ACGT'', Some ''IIII''), (''r2 1'', ''ACGG'', Some ''IIII'')]"
  let ?rw = "[(''r1 2'', ''GGCC'', Some ''IIII''), (''r2 2'', ''TTTT'', Some ''IIII'')]"
  let ?id = "\<lambda>(line::fq option) (adaptor::string) (trim::int) (e::string). line"
  have len: "length ?fw = length ?rw" by simp
  have wfl: "list_all wellformed (?fw @ ?rw)" by code_simp
  then have wf: "\<forall>r \<in> set ?fw \<union> set ?rw. wellformed r"
    unfolding list_all_iff set_append .
  have off: "adaptors_off default_config" by code_simp
  from reformatRawReads_pairing[OF len, of ?id default_config] wf off
  obtain st where st: "reformatRawReads ?id default_config ?fw ?rw = Inr st"
    and n: "length (out_fw st) = length ?fw" "length (out_rw st) = length ?fw"
      "total_reads st = length ?fw"
    by (metis list.distinct(1))
  have "reformatRawReads ?id default_config ?fw ?rw
          = Inr \<lparr>out_fw = [(''r1 1'', ''NNNN'', Some ''BBBB''), (''r2 1'', ''NNNN'', Some ''BBBB'')],
          out_rw = [(''r1 2'', ''NNNN'', Some ''BBBB''), (''r2 2'', ''NNNN'', Some ''BBBB'')],
          out_fw_discarded = [], out_rw_discarded = [], total_reads = 2,
          dropped_fw = 2, dropped_rw = 2\<rparr>"
    by code_simp
  with len wfl off st n show ?thesis by blast
qed

section \<open>Streams of unequal length\<close>

lemma reformatRawReads_truncates:
  "reformatRawReads ra cfg fw rw =
   reformatRawReads ra cfg (take (min (length fw) (length rw)) fw)
                           (take (min (length fw) (length rw)) rw)"
proof -
  have "zip (take (min (length fw) (length rw)) fw) (take (min (length fw) (length rw)) rw)
          = zip fw rw"
    by (simp add: take_zip[symmetric])
  then show ?thesis by (simp add: reformatRawReads_def izip_def)
qed

text \<open>
  Claim C2 asks that streams of unequal length abort the run with a pairing error. The
  code at a forward stream of two records and a reverse stream of one: \<open>izip\<close> ends with
  the shorter stream, the test for \<open>None\<close> never holds, and the run returns normally
  with one record in each kept output and \<open>total_reads = 1\<close>.
\<close>

theorem reformatRawReads_unequal_streams_return:
  "reformatRawReads (\<lambda>line adaptor trim e. line)
     (default_config\<lparr>trim_fw := 0, trim_rw := 0, min_length := 2\<rparr>)
     [(''r1 1'', ''ACGT'', Some ''IIII''), (''r2 1'', ''ACGG'', Some ''IIII'')]
     [(''r1 2'', ''GGCC'', Some ''IIII'')]
   = Inr \<lparr>out_fw = [(''r1 1'', ''ACGT'', Some ''IIII'')],
          out_rw = [(''r1 2'', ''ACGTGGCC'', Some ''IIIIIIII'')],
          out_fw_discarded = [], out_rw_discarded = [], total_reads = 1,
          dropped_fw = 0, dropped_rw = 0\<rparr>"
  by code_simp

text \<open>
  The theorem used at that input: the run raises no \<open>RuntimeError\<close>, and it has counted
  one pair for two forward records.
\<close>

theorem reformatRawReads_unequal_streams_return_witness:
  "reformatRawReads (\<lambda>line adaptor trim e. line)
     (default_config\<lparr>trim_fw := 0, trim_rw := 0, min_length := 2\<rparr>)
     [(''r1 1'', ''ACGT'', Some ''IIII''), (''r2 1'', ''ACGG'', Some ''IIII'')]
     [(''r1 2'', ''GGCC'', Some ''IIII'')] \<noteq> Inl RuntimeError \<and>
   (case reformatRawReads (\<lambda>line adaptor trim e. line)
     (default_config\<lparr>trim_fw := 0, trim_rw := 0, min_length := 2\<rparr>)
     [(''r1 1'', ''ACGT'', Some ''IIII''), (''r2 1'', ''ACGG'', Some ''IIII'')]
     [(''r1 2'', ''GGCC'', Some ''IIII'')] of Inl e \<Rightarrow> False | Inr st \<Rightarrow> total_reads st = 1)"
  unfolding reformatRawReads_unequal_streams_return by simp

section \<open>The filters before trimming\<close>

lemma length_filter_full:
  "length (filter P xs) = length xs \<longleftrightarrow> (\<forall>x \<in> set xs. P x)"
proof (induction xs)
  case Nil
  then show ?case by simp
next
  case (Cons x xs)
  have "length (filter P xs) \<le> length xs" by (rule length_filter_le)
  then have "length (filter P xs) \<noteq> Suc (length xs)" by arith
  with Cons show ?case by auto
qed

lemma at_content_all_or_nothing:
  assumes "sequence \<noteq> []"
  shows "at_content sequence =
           Inr (if (\<forall>c \<in> set sequence. c = CHR ''A'' \<or> c = CHR ''T'') then 100 else 0)"
proof -
  let ?n = "int (length sequence)"
  let ?a = "py_count sequence (CHR ''A'') + py_count sequence (CHR ''T'')"
  have a: "?a = int (length (filter (\<lambda>c. c = CHR ''A'' \<or> c = CHR ''T'') sequence))"
    unfolding py_count_def by (induction sequence) auto
  have le: "0 \<le> ?a" "?a \<le> ?n" unfolding a by simp_all
  have eq: "?a = ?n \<longleftrightarrow> (\<forall>c \<in> set sequence. c = CHR ''A'' \<or> c = CHR ''T'')"
    unfolding a by (simp add: length_filter_full)
  have n: "0 < ?n" using assms by simp
  have "?a div ?n = (if ?a = ?n then 1 else 0)"
    using le n by (auto simp: div_pos_pos_trivial)
  with eq n show ?thesis by (simp add: at_content_def Let_def)
qed

text \<open>
  Claim C3 asks that a read is discarded when its percentage of A and T is at least
  \<open>filter_AT_content\<close>. The code at a read of 20 bases with 19 A or T and the threshold
  90 (no trim offset, minimal length 20, so that the length test passes): the integer
  division gives 0, the percentage computed is 0, and the read is kept.
\<close>

theorem at_filter_keeps_19_of_20:
  "at_content ''ATATATATATATATATATAG'' = Inr 0 \<and>
   pretrim_discard ''ATATATATATATATATATAG'' 0 20 90 = Inr False"
  by code_simp

text \<open>
  Claim C6, as the code has it: a record with an empty sequence is discarded by the length
  test, which is evaluated first, whenever \<open>0 - trim\<close> is below the minimal length (as
  with the defaults); the division is then not evaluated.
\<close>

theorem empty_sequence_discarded_by_length_test:
  "sequence = [] \<Longrightarrow> - trim < min_len \<Longrightarrow>
     pretrim_discard sequence trim min_len filter_AT = Inr True"
  by (simp add: pretrim_discard_def)

text \<open>The theorem at the default forward offset 42 and minimal length 28.\<close>

theorem empty_sequence_discarded_by_length_test_witness:
  "([]::string) = [] \<and> - trim_fw default_config < min_length default_config \<and>
   pretrim_discard [] (trim_fw default_config) (min_length default_config)
     (filter_AT_content default_config) = Inr True"
proof -
  have a: "- trim_fw default_config < min_length default_config"
    by (simp add: default_config_def)
  from empty_sequence_discarded_by_length_test[OF refl a] a show ?thesis by simp
qed

text \<open>
  Claim C6 as worded (the division by zero cannot be reached) fails: with no trim offset
  and minimal length 0 the length test passes for an empty sequence, the division is
  evaluated, and the run ends with \<open>ZeroDivisionError\<close>.
\<close>

theorem empty_sequence_division_by_zero:
  "pretrim_discard [] 0 0 90 = Inl ZeroDivisionError \<and>
   reformatRawReads (\<lambda>line adaptor trim e. line)
     (default_config\<lparr>trim_fw := 0, trim_rw := 0, min_length := 0\<rparr>)
     [(''r 1'', [], Some [])] [(''r 2'', ''ACGT'', Some ''IIII'')] = Inl ZeroDivisionError"
  by code_simp

section \<open>The barcode fragment and the adaptors\<close>

text \<open>
  Claim C5 asks for the slice from \<open>barcode_start\<close> to \<open>barcode_start + barcode_length\<close>.
  The code at \<open>barcode_start = 2\<close>, \<open>barcode_length = 4\<close> and the forward sequence
  \<open>ACGTACGT\<close>: the slice ends at \<open>barcode_length\<close>, and the fragment is \<open>GT\<close>, not
  \<open>GTAC\<close>.
\<close>

theorem barcode_slice_ends_at_length:
  "to_append (default_config\<lparr>barcode_start := 2, barcode_length := 4\<rparr>) ''ACGTACGT'' = ''GT'' \<and>
   py_slice ''ACGTACGT'' 2 (2 + 4) = ''GTAC''"
  by code_simp

text \<open>
  Claim C7 asks that each adaptor is the homopolymer of its own configured length. The
  code with poly-C set to 5 and poly-G left at 0: the poly-C adaptor is built from the
  poly-G length and is empty (with poly-G set to 3 it is \<open>CCC\<close>). A trimmer that
  appends each adaptor it receives to the header shows the calls made for poly-A 2,
  poly-T 3 and poly-C 5: \<open>AA\<close>, \<open>TTT\<close> and the empty string, in this order.
\<close>

theorem adaptorC_built_from_polyG:
  "adaptorC (default_config\<lparr>polyC_min_distance := 5\<rparr>) = [] \<and>
   adaptorC (default_config\<lparr>polyG_min_distance := 3, polyC_min_distance := 5\<rparr>) = ''CCC'' \<and>
   remove_adaptors
     (\<lambda>line adaptor trim e. map_option (\<lambda>(h, s, q). (h @ ''/'' @ adaptor, s, q)) line)
     (default_config\<lparr>polyA_min_distance := 2, polyT_min_distance := 3,
                      polyC_min_distance := 5\<rparr>)
     (Some (''r'', ''ACGT'', Some ''IIII''), None)
   = (Some (''r/AA/TTT/'', ''ACGT'', Some ''IIII''), None)"
  by code_simp

section \<open>The contamination pass\<close>

lemma py_nth_flag: "has_flag r \<Longrightarrow> py_nth (py_split (fst r)) 1 = Inr (flag_token r)"
  by (simp add: has_flag_def flag_token_def py_nth_def)

lemma filter_rRNA_pair_step:
  assumes "has_flag line1" "has_flag line2"
  shows "\<exists>st'. filter_rRNA_pair st line1 line2 = Inr st' \<and>
    rrna_out_fw st' = rrna_out_fw st @ [kept_record line1] \<and>
    contaminated_fw st' = contaminated_fw st + count_contaminated [line1] \<and>
    rrna_out_rw st' = rrna_out_rw st @ [kept_record line2] \<and>
    contaminated_rv st' = contaminated_rv st + count_contaminated [line2]"
  using py_nth_flag[OF assms(1)] py_nth_flag[OF assms(2)]
  by (simp add: filter_rRNA_pair_def Let_def getFake_def kept_record_def count_contaminated_def)

lemma count_contaminated_Cons:
  "count_contaminated (r # rs) = count_contaminated [r] + count_contaminated rs"
  by (simp add: count_contaminated_def)

lemma filter_rRNA_loop_run:
  assumes "\<forall>p \<in> set ps. has_flag (fst p) \<and> has_flag (snd p)"
  shows "\<exists>st'. filter_rRNA_loop st ps = Inr st' \<and>
    rrna_out_fw st' = rrna_out_fw st @ map kept_record (map fst ps) \<and>
    contaminated_fw st' = contaminated_fw st + count_contaminated (map fst ps) \<and>
    rrna_out_rw st' = rrna_out_rw st @ map kept_record (map snd ps) \<and>
    contaminated_rv st' = contaminated_rv st + count_contaminated (map snd ps)"
  using assms
proof (induction ps arbitrary: st)
  case Nil
  then show ?case by (simp add: count_contaminated_def)
next
  case (Cons p ps)
  obtain line1 line2 where p: "p = (line1, line2)" by (cases p)
  with Cons.prems have f: "has_flag line1" "has_flag line2" by auto
  from filter_rRNA_pair_step[OF f, of st] obtain st1 where
    one: "filter_rRNA_pair st line1 line2 = Inr st1"
    and o1: "rrna_out_fw st1 = rrna_out_fw st @ [kept_record line1]"
      "contaminated_fw st1 = contaminated_fw st + count_contaminated [line1]"
      "rrna_out_rw st1 = rrna_out_rw st @ [kept_record line2]"
      "contaminated_rv st1 = contaminated_rv st + count_contaminated [line2]"
    by blast
  from Cons.IH[of st1] Cons.prems obtain st' where
    rest: "filter_rRNA_loop st1 ps = Inr st'"
    and o2: "rrna_out_fw st' = rrna_out_fw st1 @ map kept_record (map fst ps)"
      "contaminated_fw st' = contaminated_fw st1 + count_contaminated (map fst ps)"
      "rrna_out_rw st' = rrna_out_rw st1 @ map kept_record (map snd ps)"
      "contaminated_rv st' = contaminated_rv st1 + count_contaminated (map snd ps)"
    by auto
  have "filter_rRNA_loop st (p # ps) = Inr st'"
    using p one rest by simp
  moreover have "count_contaminated (map fst (p # ps))
                   = count_contaminated [line1] + count_contaminated (map fst ps)"
    "count_contaminated (map snd (p # ps))
                   = count_contaminated [line2] + count_contaminated (map snd ps)"
    using p count_contaminated_Cons[of line1 "map fst ps"]
      count_contaminated_Cons[of line2 "map snd ps"] by simp_all
  ultimately show ?case using o1 o2 p by simp
qed

text \<open>
  Claim C8. For two streams that are not empty, in which every header of a pair has a
  flag token, \<open>filter_rRNA_reads\<close> returns; pair by pair and in order, each kept output
  holds the record itself where its flag is \<open>00\<close> and otherwise the placeholder of
  the length of the record's sequence, and the contamination counter of each side is the
  number of records of that side, among the pairs, whose flag is not \<open>00\<close>: one more
  for each such record.
\<close>

theorem filter_rRNA_reads_flags:
  assumes "forward_reads \<noteq> []" and "reverse_reads \<noteq> []"
    and "\<forall>p \<in> set (izip forward_reads reverse_reads). has_flag (fst p) \<and> has_flag (snd p)"
  shows "\<exists>st. filter_rRNA_reads after_fw after_rv forward_reads reverse_reads
               = Inr (st, (after_fw + after_rv)
                            - (int (contaminated_fw st) + int (contaminated_rv st))) \<and>
    rrna_out_fw st = map kept_record (map fst (izip forward_reads reverse_reads)) \<and>
    contaminated_fw st = count_contaminated (map fst (izip forward_reads reverse_reads)) \<and>
    rrna_out_rw st = map kept_record (map snd (izip forward_reads reverse_reads)) \<and>
    contaminated_rv st = count_contaminated (map snd (izip forward_reads reverse_reads))"
proof -
  let ?init = "\<lparr>rrna_out_fw = [], rrna_out_rw = [], contaminated_fw = 0, contaminated_rv = 0\<rparr>"
  let ?ps = "izip forward_reads reverse_reads"
  from filter_rRNA_loop_run[OF assms(3), of ?init] obtain st where
    run: "filter_rRNA_loop ?init ?ps = Inr st"
    and o: "rrna_out_fw st = map kept_record (map fst ?ps)"
      "contaminated_fw st = count_contaminated (map fst ?ps)"
      "rrna_out_rw st = map kept_record (map snd ?ps)"
      "contaminated_rv st = count_contaminated (map snd ?ps)"
    by auto
  from assms(1,2) have "?ps \<noteq> []"
    by (cases forward_reads; cases reverse_reads) (simp_all add: izip_def)
  with o have "rrna_out_fw st \<noteq> []" "rrna_out_rw st \<noteq> []" by simp_all
  then have "fileOk (file_text (rrna_out_fw st))" "fileOk (file_text (rrna_out_rw st))"
    by (simp_all add: fileOk_file_text)
  with run o show ?thesis by (simp add: filter_rRNA_reads_def)
qed

text \<open>
  The theorem at two pairs: the forward headers \<open>readX 01\<close> and \<open>readY 00\<close>, the
  reverse headers \<open>readX 00\<close> and \<open>readY 256\<close>.
\<close>

theorem filter_rRNA_reads_flags_witness:
  "[(''readX 01'', ''ACGT'', Some ''IIII''), (''readY 00'', ''AC'', Some ''II'')] \<noteq> [] \<and>
   [(''readX 00'', ''GGCC'', Some ''JJJJ''), (''readY 256'', ''TTG'', Some ''JJJ'')] \<noteq> [] \<and>
   list_all (\<lambda>p. has_flag (fst p) \<and> has_flag (snd p))
     (izip [(''readX 01'', ''ACGT'', Some ''IIII''), (''readY 00'', ''AC'', Some ''II'')]
           [(''readX 00'', ''GGCC'', Some ''JJJJ''), (''readY 256'', ''TTG'', Some ''JJJ'')]) \<and>
   filter_rRNA_reads 2 2
     [(''readX 01'', ''ACGT'', Some ''IIII''), (''readY 00'', ''AC'', Some ''II'')]
     [(''readX 00'', ''GGCC'', Some ''JJJJ''), (''readY 256'', ''TTG'', Some ''JJJ'')]
   = Inr (\<lparr>rrna_out_fw = [(''readX 01'', ''NNNN'', Some ''BBBB''), (''readY 00'', ''AC'', Some ''II'')],
           rrna_out_rw = [(''readX 00'', ''GGCC'', Some ''JJJJ''), (''readY 256'', ''NNN'', Some ''BBB'')],
           contaminated_fw = 1, contaminated_rv = 1\<rparr>, 2)"
proof -
  let ?fw = "[(''readX 01'', ''ACGT'', Some ''IIII''), (''readY 00'', ''AC'', Some ''II'')]"
  let ?rw = "[(''readX 00'', ''GGCC'', Some ''JJJJ''), (''readY 256'', ''TTG'', Some ''JJJ'')]"
  have ne: "?fw \<noteq> []" "?rw \<noteq> []" by simp_all
  have fl: "list_all (\<lambda>p. has_flag (fst p) \<and> has_flag (snd p)) (izip ?fw ?rw)"
    by code_simp
  then have fa: "\<forall>p \<in> set (izip ?fw ?rw). has_flag (fst p) \<and> has_flag (snd p)"
    unfolding list_all_iff .
  have kf: "map kept_record (map fst (izip ?fw ?rw))
              = [(''readX 01'', ''NNNN'', Some ''BBBB''), (''readY 00'', ''AC'', Some ''II'')]"
    by code_simp
  have kr: "map kept_record (map snd (izip ?fw ?rw))
              = [(''readX 00'', ''GGCC'', Some ''JJJJ''), (''readY 256'', ''NNN'', Some ''BBB'')]"
    by code_simp
  have cf: "count_contaminated (map fst (izip ?fw ?rw)) = 1" by code_simp
  have cr: "count_contaminated (map snd (izip ?fw ?rw)) = 1" by code_simp
  from filter_rRNA_reads_flags[OF ne fa, of 2 2] obtain st where
    run: "filter_rRNA_reads 2 2 ?fw ?rw
            = Inr (st, (2 + 2) - (int (contaminated_fw st) + int (contaminated_rv st)))"
    and o: "rrna_out_fw st = map kept_record (map fst (izip ?fw ?rw))"
      "contaminated_fw st = count_contaminated (map fst (izip ?fw ?rw))"
      "rrna_out_rw st = map kept_record (map snd (izip ?fw ?rw))"
      "contaminated_rv st = count_contaminated (map snd (izip ?fw ?rw))"
    by blast
  from o kf kr cf cr have
    "st = \<lparr>rrna_out_fw = [(''readX 01'', ''NNNN'', Some ''BBBB''), (''readY 00'', ''AC'', Some ''II'')],
           rrna_out_rw = [(''readX 00'', ''GGCC'', Some ''JJJJ''), (''readY 256'', ''NNN'', Some ''BBB'')],
           contaminated_fw = 1, contaminated_rv = 1\<rparr>"
    by (cases st) simp
  with run cf cr o ne fl show ?thesis by simp
qed

section \<open>Writing a record and reading it back\<close>

lemma universal_newlines_id: "CR \<notin> set s \<Longrightarrow> universal_newlines s = s"
  by (induction s rule: universal_newlines.induct) auto

lemma lines_go_line:
  "LF \<notin> set a \<Longrightarrow> lines_go cur (a @ LF # rest) = (cur @ a @ [LF]) # lines_go [] rest"
  by (induction a arbitrary: cur) auto

lemma lines_go_line0:
  "LF \<notin> set a \<Longrightarrow> lines_go [] (a @ LF # rest) = (a @ [LF]) # lines_go [] rest"
  using lines_go_line[of a "[]" rest] by simp

lemma readfq_while_end: "readfq_while None [] = ([], None)"
  by (subst readfq_while.simps) (simp add: truthy_def)

lemma file_lines_record:
  assumes "LF \<notin> set header" "LF \<notin> set sequence" "LF \<notin> set quality"
    and "CR \<notin> set header" "CR \<notin> set sequence" "CR \<notin> set quality"
  shows "file_lines (file_text [(header, sequence, Some quality)]) =
           [CHR ''@'' # header @ [LF], sequence @ [LF], [CHR ''+'', LF], quality @ [LF]]"
proof -
  let ?l4 = "quality @ LF # []"
  let ?l3 = "[CHR ''+''] @ LF # ?l4"
  let ?l2 = "sequence @ LF # ?l3"
  let ?text = "(CHR ''@'' # header) @ LF # ?l2"
  have t: "file_text [(header, sequence, Some quality)] = ?text"
    by (simp add: file_text_def writefq_send_def fq_format_def)
  have u: "universal_newlines ?text = ?text"
    using assms by (intro universal_newlines_id) auto
  have "lines_go [] ?text = ((CHR ''@'' # header) @ [LF]) # lines_go [] ?l2"
    using assms(1) by (intro lines_go_line0) simp
  also have "lines_go [] ?l2 = (sequence @ [LF]) # lines_go [] ?l3"
    using assms(2) by (intro lines_go_line0)
  also have "lines_go [] ?l3 = ([CHR ''+''] @ [LF]) # lines_go [] ?l4"
    by (intro lines_go_line0) simp
  also have "lines_go [] ?l4 = (quality @ [LF]) # lines_go [] []"
    using assms(3) by (intro lines_go_line0)
  finally have "lines_go [] ?text =
      [CHR ''@'' # header @ [LF], sequence @ [LF], [CHR ''+'', LF], quality @ [LF]]"
    by simp
  with t u show ?thesis by (simp only: file_lines_def)
qed

text \<open>
  Claim C9, as the code has it. A record whose quality is as long as its sequence, both
  not empty, whose header, sequence and quality hold no line feed and no carriage return,
  and whose sequence does not begin with \<open>@\<close>, \<open>+\<close> or \<open>>\<close>, is written by
  \<open>writefq\<close> and read back by \<open>readfq\<close> as exactly that one record, and the parser ends
  normally.
\<close>

theorem readfq_writefq_roundtrip:
  assumes "length quality = length sequence" and "sequence \<noteq> []" and "quality \<noteq> []"
    and "LF \<notin> set header" "LF \<notin> set sequence" "LF \<notin> set quality"
    and "CR \<notin> set header" "CR \<notin> set sequence" "CR \<notin> set quality"
    and "hd sequence \<notin> set ''@+>''"
  shows "readfq (file_lines (file_text [(header, sequence, Some quality)]))
           = ([(header, sequence, Some quality)], None)"
proof -
  obtain c s' where s: "sequence = c # s'" using assms(2) by (cases sequence) auto
  with assms(10) have c: "c \<noteq> CHR ''@''" "c \<noteq> CHR ''+''" "c \<noteq> CHR ''>''" by auto
  have rs: "read_sequence [] [sequence @ [LF], [CHR ''+'', LF], quality @ [LF]]
              = Inr ([sequence], Some ''+'', [quality @ [LF]])"
    using c by (simp add: s)
  have rq: "read_quality (length sequence) 0 [] [quality @ [LF]] = (Some quality, [])"
    using assms(1) by (simp add: Let_def)
  have fh: "find_header [CHR ''@'' # header @ [LF], sequence @ [LF], [CHR ''+'', LF], quality @ [LF]]
              = Inr (Some (CHR ''@'' # header), [sequence @ [LF], [CHR ''+'', LF], quality @ [LF]])"
    by (simp add: butlast_append)
  show ?thesis
    unfolding readfq_def file_lines_record[OF assms(4-9)]
    by (subst readfq_while.simps)
       (simp add: truthy_def fh rs rq readfq_while_end
             del: readfq_while.simps find_header.simps read_sequence.simps read_quality.simps)
qed

text \<open>The theorem at a record whose quality holds the characters \<open>@\<close> and \<open>+\<close>.\<close>

theorem readfq_writefq_roundtrip_witness:
  "length ''II@+'' = length ''ACGT'' \<and> ''ACGT'' \<noteq> [] \<and> ''II@+'' \<noteq> [] \<and>
   hd ''ACGT'' \<notin> set ''@+>'' \<and>
   readfq (file_lines (file_text [(''read1 x'', ''ACGT'', Some ''II@+'')]))
     = ([(''read1 x'', ''ACGT'', Some ''II@+'')], None)"
proof -
  have "readfq (file_lines (file_text [(''read1 x'', ''ACGT'', Some ''II@+'')]))
     = ([(''read1 x'', ''ACGT'', Some ''II@+'')], None)"
    by (rule readfq_writefq_roundtrip) simp_all
  then show ?thesis by simp
qed

text \<open>
  Claim C9 as worded (every record with a quality as long as its sequence, both not
  empty) fails: the sequence \<open>+A\<close> is read as the separator line, and the record read
  back has an empty sequence and the quality \<open>+\<close>.
\<close>

theorem readfq_writefq_roundtrip_fails:
  "length ''II'' = length ''+A'' \<and> ''+A'' \<noteq> [] \<and> ''II'' \<noteq> [] \<and>
   readfq (file_lines (file_text [(''r'', ''+A'', Some ''II'')])) = ([(''r'', [], Some ''+'')], None)"
  by code_simp

section \<open>What \<open>trim_quality\<close> returns\<close>

lemma qti_loop_le:
  "mi \<le> n \<Longrightarrow> k \<le> n \<Longrightarrow> qti_loop q c b k s mq mi \<le> n"
  by (induction k arbitrary: s mq mi) (auto simp: Let_def)

lemma quality_trim_index_le: "quality_trim_index q c b \<le> length q"
  unfolding quality_trim_index_def by (rule qti_loop_le) simp_all

text \<open>
  Claim C10, as the code has it. For a record whose quality is as long as its sequence
  and a trim offset not beyond the end of the sequence, a result of \<open>trim_quality\<close> that
  is not the discard has the name of the record, and its sequence and quality are the
  first \<open>k\<close> symbols of the original ones, where \<open>k\<close> is the cut index computed on the
  quality after the offset and \<open>min_length \<le> k \<le> len - trim_distance\<close>. Bases are
  removed from the 3' end only; of the offset bases the first \<open>k\<close> are kept.
\<close>

theorem trim_quality_prefix:
  assumes "trim_quality (name, sequence, Some quality) trim_distance min_q min_len q64
             = Inr (Some (name', new_seq, new_qual))"
    and "length quality = length sequence"
    and "trim_distance \<le> int (length sequence)"
  shows "name' = name \<and>
         new_seq = take (length new_seq) sequence \<and>
         new_qual = Some (take (length new_seq) quality) \<and>
         min_len \<le> int (length new_seq) \<and>
         int (length new_seq) \<le> int (length sequence) - trim_distance \<and>
         length new_seq =
           quality_trim_index (py_slice_from quality trim_distance) min_q (if q64 then 64 else 33)"
proof -
  let ?k = "quality_trim_index (py_slice_from quality trim_distance) min_q (if q64 then 64 else 33)"
  have le: "?k \<le> length (py_slice_from quality trim_distance)"
    by (rule quality_trim_index_le)
  have len: "int (length (py_slice_from quality trim_distance)) \<le> int (length sequence) - trim_distance"
    and len2: "length (py_slice_from quality trim_distance) \<le> length sequence"
    using assms(2,3) by (auto simp: py_slice_from_def slice_bound_def)
  from assms(1) have ok: "min_len \<le> int ?k"
    and res: "name' = name" "new_seq = py_slice_to sequence (int ?k)"
      "new_qual = Some (py_slice_to quality (int ?k))"
    by (auto simp: trim_quality_def Let_def split: if_splits)
  have k: "length new_seq = ?k"
    using res(2) le len2 by (simp add: py_slice_to_def slice_bound_def)
  show ?thesis
    using res ok le len k assms(2) by (simp add: py_slice_to_def slice_bound_def)
qed

text \<open>
  The theorem at a read of ten bases with offset 2 and minimal length 3, whose last two
  qualities are low: the cut index is 6.
\<close>

theorem trim_quality_prefix_witness:
  "trim_quality (''r'', ''ACGTACGTAC'', Some ''IIIIIIII+!'') 2 20 3 False
     = Inr (Some (''r'', ''ACGTAC'', Some ''IIIIII'')) \<and>
   length ''IIIIIIII+!'' = length ''ACGTACGTAC'' \<and>
   (2::int) \<le> int (length ''ACGTACGTAC'') \<and>
   ''ACGTAC'' = take (length ''ACGTAC'') ''ACGTACGTAC'' \<and>
   (3::int) \<le> int (length ''ACGTAC'') \<and>
   int (length ''ACGTAC'') \<le> int (length ''ACGTACGTAC'') - 2"
proof -
  have run: "trim_quality (''r'', ''ACGTACGTAC'', Some ''IIIIIIII+!'') 2 20 3 False
     = Inr (Some (''r'', ''ACGTAC'', Some ''IIIIII''))" by code_simp
  have len: "length ''IIIIIIII+!'' = length ''ACGTACGTAC''" by simp
  have off: "(2::int) \<le> int (length ''ACGTACGTAC'')" by simp
  have "''ACGTAC'' = take (length ''ACGTAC'') ''ACGTACGTAC'' \<and>
        (3::int) \<le> int (length ''ACGTAC'') \<and>
        int (length ''ACGTAC'') \<le> int (length ''ACGTACGTAC'') - 2"
    using trim_quality_prefix[OF run len off] by blast
  with run len off show ?thesis by blast
qed

text \<open>
  Claim C10 as worded (the offset bases are retained in the output) fails: for a read of
  ten bases of high quality with offset 6 and minimal length 2 the cut index is 4, and the
  result is the first four bases, which do not hold the six offset bases.
\<close>

theorem trim_quality_drops_offset_bases:
  "trim_quality (''r'', ''ACGTACGTAC'', Some ''IIIIIIIIII'') 6 20 2 False
     = Inr (Some (''r'', ''ACGT'', Some ''IIII'')) \<and>
   take 6 ''ACGT'' \<noteq> take 6 ''ACGTACGTAC''"
  by code_simp

end
